theory Spec2Isabelle
  imports Main "HOL-Library.Word"
begin

unbundle bit_operations_syntax

section \<open>Sparse binary Merkle trees of fixed depth (eth2/_utils/merkle/sparse.py)\<close>

subsection \<open>Data model\<close>

text \<open>
  Python \<open>bytes\<close> values are lists of 8-bit words, \<open>+\<close> on them is list append.
  A tree is a tuple of layers, root layer first; a layer is a tuple of digests.
  The hash primitive \<open>hash_eth2\<close> lives outside the module: every definition takes it
  as the parameter \<open>H\<close>.
\<close>

type_synonym byte = "8 word"
type_synonym bytes = "byte list"
type_synonym Hash32 = bytes
type_synonym layer = "Hash32 list"
type_synonym MerkleTree = "layer list"
type_synonym MerkleProof = "Hash32 list"
type_synonym hashfn = "bytes \<Rightarrow> Hash32"

datatype error = ValueError | AssertionError | IndexError | ValidationError

definition TreeDepth :: nat where
  "TreeDepth = 32"

subsection \<open>The table of empty-subtree digests\<close>

text \<open>
  \<open>take(n, iterate(f, x))\<close> of cytoolz: the first \<open>n\<close> values of \<open>x, f x, f (f x), ...\<close>
\<close>

fun take_iterate :: "nat \<Rightarrow> ('a \<Rightarrow> 'a) \<Rightarrow> 'a \<Rightarrow> 'a list" where
  "take_iterate 0 f x = []"
| "take_iterate (Suc n) f x = x # take_iterate n f (f x)"

definition EmptyNodeHashes :: "hashfn \<Rightarrow> Hash32 list" where
  "EmptyNodeHashes H =
     take_iterate TreeDepth (\<lambda>node_hash. H (node_hash @ node_hash)) (replicate 32 0)"

subsection \<open>Helpers imported by the module\<close>

text \<open>
  Modelled from the spec: \<open>_calc_parent_hash\<close> and \<open>_hash_layer\<close> of
  \<open>eth2/_utils/merkle/common.py\<close> are not among the sources. The spec gives
  \<open>parent[j] = H(currentLayer[2j] || currentLayer[2j+1])\<close>, adjacent pairs left to right.
  A trailing unpaired digest has no parent.
\<close>

definition calc_parent_hash :: "hashfn \<Rightarrow> Hash32 \<Rightarrow> Hash32 \<Rightarrow> Hash32" where
  "calc_parent_hash H left_node right_node = H (left_node @ right_node)"

fun hash_layer :: "hashfn \<Rightarrow> layer \<Rightarrow> layer" where
  "hash_layer H (left_node # right_node # rest) =
     calc_parent_hash H left_node right_node # hash_layer H rest"
| "hash_layer H _ = []"

text \<open>
  Modelled from the spec: \<open>get_root\<close> of \<open>eth2/_utils/merkle/common.py\<close> is not among
  the sources. The spec gives: returns layer 0's sole digest. A tree without a layer 0, or
  whose layer 0 is not a single digest, has no sole digest and is an error here.
\<close>

definition get_root :: "MerkleTree \<Rightarrow> error + Hash32" where
  "get_root tree =
     (case tree of
        [] \<Rightarrow> Inl AssertionError
      | root_layer # _ \<Rightarrow>
          (case root_layer of [r] \<Rightarrow> Inr r | _ \<Rightarrow> Inl AssertionError))"

text \<open>
  Modelled from the spec: \<open>update_tuple_item\<close> of \<open>eth2/_utils/tuple.py\<close> is not among
  the sources. The spec gives: replace one element of an immutable sequence. An index
  outside the sequence replaces nothing and is an error here.
\<close>

definition update_tuple_item :: "'a list \<Rightarrow> nat \<Rightarrow> 'a \<Rightarrow> error + 'a list" where
  "update_tuple_item tuple_data index new_value =
     (if index < length tuple_data then Inr (tuple_data[index := new_value])
      else Inl ValidationError)"

subsection \<open>Proof verification\<close>

text \<open>
  One iteration of the loop of \<open>verify_merkle_proof\<close>. \<open>index\<close> is a Python int;
  \<open>//\<close> and \<open>%\<close> round towards minus infinity, as \<open>div\<close> and \<open>mod\<close> on \<open>int\<close> do.
  The branch is taken when \<open>index // (2**i) % 2\<close> is non-zero.
\<close>

definition verify_step :: "hashfn \<Rightarrow> int \<Rightarrow> MerkleProof \<Rightarrow> Hash32 \<Rightarrow> nat \<Rightarrow> Hash32" where
  "verify_step H index proof val i =
     (if index div (2 ^ i) mod 2 \<noteq> 0 then H (proof ! i @ val) else H (val @ proof ! i))"

definition verify_merkle_proof ::
  "hashfn \<Rightarrow> Hash32 \<Rightarrow> Hash32 \<Rightarrow> int \<Rightarrow> MerkleProof \<Rightarrow> error + bool" where
  "verify_merkle_proof H root leaf index proof =
     (if length proof \<noteq> TreeDepth then Inl AssertionError
      else Inr (foldl (verify_step H index proof) leaf [0..<TreeDepth] = root))"


subsection \<open>Tree construction\<close>

text \<open>
  One iteration of the loop of \<open>calc_merkle_tree_from_leaves\<close>: pad \<open>tree[0]\<close> with
  \<open>EmptyNodeHashes[i]\<close> when its length is odd, then put the hashed layer in front.
  Reading \<open>tree[0]\<close> of an empty tuple, or \<open>EmptyNodeHashes[i]\<close> past the table, raises.
\<close>

definition build_round :: "hashfn \<Rightarrow> MerkleTree \<Rightarrow> nat \<Rightarrow> error + MerkleTree" where
  "build_round H tree i =
     (case tree of
        [] \<Rightarrow> Inl IndexError
      | bottom # _ \<Rightarrow>
          (case (if length bottom mod 2 = 1
                 then (if i < length (EmptyNodeHashes H)
                       then update_tuple_item tree 0 (bottom @ [EmptyNodeHashes H ! i])
                       else Inl IndexError)
                 else Inr tree) of
             Inl e \<Rightarrow> Inl e
           | Inr tree' \<Rightarrow>
               (case tree' of
                  [] \<Rightarrow> Inl IndexError
                | front # _ \<Rightarrow> Inr (hash_layer H front # tree'))))"

fun build_rounds :: "hashfn \<Rightarrow> nat list \<Rightarrow> MerkleTree \<Rightarrow> error + MerkleTree" where
  "build_rounds H [] tree = Inr tree"
| "build_rounds H (i # rounds) tree =
     (case build_round H tree i of
        Inl e \<Rightarrow> Inl e
      | Inr tree' \<Rightarrow> build_rounds H rounds tree')"

definition calc_merkle_tree_from_leaves :: "hashfn \<Rightarrow> Hash32 list \<Rightarrow> error + MerkleTree" where
  "calc_merkle_tree_from_leaves H leaves =
     (if length leaves = 0 then Inl ValueError
      else build_rounds H [0..<TreeDepth] [leaves])"

definition calc_merkle_tree :: "hashfn \<Rightarrow> bytes list \<Rightarrow> error + MerkleTree" where
  "calc_merkle_tree H items = calc_merkle_tree_from_leaves H (map H items)"

definition get_merkle_root :: "hashfn \<Rightarrow> Hash32 list \<Rightarrow> error + Hash32" where
  "get_merkle_root H leaves =
     (case calc_merkle_tree_from_leaves H leaves of
        Inl e \<Rightarrow> Inl e
      | Inr tree \<Rightarrow> get_root tree)"

subsection \<open>The layers of a built tree, level by level\<close>

text \<open>
  \<open>padded H i l\<close> is the layer \<open>l\<close> as round \<open>i\<close> stores it, and \<open>level H leaves i\<close> is the
  working layer at the start of round \<open>i\<close>. They describe the result of the loop and are
  used only to state and prove its properties.
\<close>

definition padded :: "hashfn \<Rightarrow> nat \<Rightarrow> layer \<Rightarrow> layer" where
  "padded H i l = (if length l mod 2 = 1 then l @ [EmptyNodeHashes H ! i] else l)"

fun level :: "hashfn \<Rightarrow> Hash32 list \<Rightarrow> nat \<Rightarrow> layer" where
  "level H leaves 0 = leaves"
| "level H leaves (Suc i) = hash_layer H (padded H i (level H leaves i))"

definition layers :: "hashfn \<Rightarrow> Hash32 list \<Rightarrow> nat \<Rightarrow> MerkleTree" where
  "layers H leaves d =
     level H leaves d # rev (map (\<lambda>i. padded H i (level H leaves i)) [0..<d])"

section \<open>Properties\<close>

subsection \<open>The constant table\<close>

lemma length_take_iterate: "length (take_iterate n f x) = n"
  by (induction n arbitrary: x) simp_all

lemma nth_take_iterate: "i < n \<Longrightarrow> take_iterate n f x ! i = (f ^^ i) x"
proof (induction n arbitrary: x i)
  case 0
  then show ?case by simp
next
  case (Suc n)
  show ?case
  proof (cases i)
    case 0
    then show ?thesis by simp
  next
    case (Suc j)
    with Suc.prems have "j < n" by simp
    from Suc.IH [OF this] Suc show ?thesis
      by (simp add: funpow_swap1)
  qed
qed

lemma length_EmptyNodeHashes: "length (EmptyNodeHashes H) = 32"
  by (simp add: EmptyNodeHashes_def TreeDepth_def length_take_iterate)

lemma EmptyNodeHashes_0: "EmptyNodeHashes H ! 0 = replicate 32 0"
  by (simp add: EmptyNodeHashes_def TreeDepth_def nth_take_iterate)

lemma EmptyNodeHashes_Suc:
  assumes "Suc i < 32"
  shows "EmptyNodeHashes H ! Suc i = H (EmptyNodeHashes H ! i @ EmptyNodeHashes H ! i)"
proof -
  from assms have "i < 32" by simp
  with assms show ?thesis
    by (simp add: EmptyNodeHashes_def TreeDepth_def nth_take_iterate)
qed

lemma build_round_Cons:
  assumes "i < 32"
  shows "build_round H (bottom # rest) i =
           Inr (hash_layer H (padded H i bottom) # padded H i bottom # rest)"
  using assms
  by (simp add: build_round_def padded_def update_tuple_item_def length_EmptyNodeHashes)

lemma build_rounds_append:
  "build_rounds H (xs @ ys) tree =
     (case build_rounds H xs tree of Inl e \<Rightarrow> Inl e | Inr tree' \<Rightarrow> build_rounds H ys tree')"
  by (induction xs arbitrary: tree) (simp_all split: sum.splits)

lemma build_rounds_layers:
  "d \<le> 32 \<Longrightarrow> build_rounds H [0..<d] [leaves] = Inr (layers H leaves d)"
proof (induction d)
  case 0
  show ?case by (simp add: layers_def)
next
  case (Suc d)
  then have IH: "build_rounds H [0..<d] [leaves] = Inr (layers H leaves d)" and d: "d < 32"
    by simp_all
  have "build_rounds H [0..<Suc d] [leaves] = build_rounds H [d] (layers H leaves d)"
    by (simp add: build_rounds_append IH)
  also have "\<dots> = Inr (layers H leaves (Suc d))"
    using d by (simp add: layers_def build_round_Cons)
  finally show ?case .
qed

lemma calc_merkle_tree_from_leaves_layers:
  "leaves \<noteq> [] \<Longrightarrow> calc_merkle_tree_from_leaves H leaves = Inr (layers H leaves 32)"
  by (simp add: calc_merkle_tree_from_leaves_def TreeDepth_def build_rounds_layers)

lemma length_layers: "length (layers H leaves d) = Suc d"
  by (simp add: layers_def)

lemma layers_nth_0: "layers H leaves d ! 0 = level H leaves d"
  by (simp add: layers_def)

lemma layers_nth_padded:
  assumes "i < d"
  shows "layers H leaves d ! (d - i) = padded H i (level H leaves i)"
proof -
  from assms obtain j where j: "d - i = Suc j" "j < d" "d - Suc j = i"
    by (cases "d - i") auto
  with assms show ?thesis
    by (simp add: layers_def rev_nth)
qed

lemma length_hash_layer: "length (hash_layer H l) = length l div 2"
  by (induction H l rule: hash_layer.induct) simp_all

lemma nth_hash_layer:
  "Suc (2 * j) < length l \<Longrightarrow> hash_layer H l ! j = H (l ! (2 * j) @ l ! Suc (2 * j))"
proof (induction H l arbitrary: j rule: hash_layer.induct)
  case (1 H left_node right_node rest)
  then show ?case
    by (cases j) (simp_all add: calc_parent_hash_def)
qed simp_all

lemma length_padded: "length (padded H i l) = length l + length l mod 2"
  by (simp add: padded_def)

lemma even_length_padded: "even (length (padded H i l))"
  by (simp add: padded_def) presburger

lemma nth_padded: "j < length l \<Longrightarrow> padded H i l ! j = l ! j"
  by (simp add: padded_def nth_append)

lemma length_level_Suc:
  "length (level H leaves (Suc i)) = (length (level H leaves i) + 1) div 2"
  by (simp add: length_hash_layer length_padded) presburger

lemma length_level:
  "length (level H leaves i) = (length leaves + 2 ^ i - 1) div 2 ^ i"
proof (induction i)
  case 0
  show ?case by simp
next
  case (Suc i)
  define m :: nat where "m = length leaves + 2 ^ i - 1"
  have "length (level H leaves (Suc i)) = (m div 2 ^ i + 1) div 2"
    using Suc unfolding m_def by (simp only: length_level_Suc)
  also have "m div 2 ^ i + 1 = (m + 2 ^ i) div 2 ^ i"
    using div_add_self2 [of "2 ^ i" m] by simp
  also have "(m + 2 ^ i) div 2 ^ i div 2 = (m + 2 ^ i) div 2 ^ Suc i"
    by (simp only: power_Suc2 div_mult2_eq)
  also have "m + 2 ^ i = length leaves + 2 ^ Suc i - 1"
    by (simp add: m_def)
  finally show ?case .
qed

subsection \<open>Climbing from a leaf along the built layers\<close>

lemma half_less_half_up: "a < b \<Longrightarrow> a div 2 < (b + 1) div (2::nat)"
  by presburger

lemma even_Suc_less: "even j \<Longrightarrow> even n \<Longrightarrow> j < n \<Longrightarrow> Suc j < (n::nat)"
  by presburger

lemma xor_Suc_0_nat: "j XOR Suc 0 = (if even j then Suc j else j - 1)"
  by (simp add: xor_Suc_0_eq)

lemma index_in_level:
  "k < length leaves \<Longrightarrow> k div 2 ^ i < length (level H leaves i)"
proof (induction i)
  case 0
  then show ?case by simp
next
  case (Suc i)
  then have "k div 2 ^ i < length (level H leaves i)" by simp
  then have "k div 2 ^ i div 2 < (length (level H leaves i) + 1) div 2"
    by (rule half_less_half_up)
  then show ?case
    by (simp only: length_level_Suc power_Suc2 div_mult2_eq)
qed

lemma sibling_in_padded:
  assumes "j < length l"
  shows "j XOR 1 < length (padded H i l)"
proof -
  have e: "even (length (padded H i l))" by (rule even_length_padded)
  have l: "j < length (padded H i l)" using assms by (simp add: length_padded)
  show ?thesis
  proof (cases "even j")
    case True
    then have "j XOR 1 = j + 1" by (simp add: xor_Suc_0_nat)
    moreover from True e l have "j + 1 < length (padded H i l)"
      by (simp add: even_Suc_less)
    ultimately show ?thesis by simp
  next
    case False
    then have "j XOR 1 = j - 1" by (simp add: xor_Suc_0_nat)
    with l show ?thesis by simp
  qed
qed

lemma int_index_bit: "(int k div 2 ^ i mod 2 \<noteq> 0) = odd (k div 2 ^ i)"
proof -
  have "int k div 2 ^ i = int (k div 2 ^ i)" by (simp add: zdiv_int)
  then show ?thesis by (simp add: odd_iff_mod_2_eq_one) presburger
qed

lemma verify_step_level:
  assumes k: "k < length leaves"
    and p: "proof ! i = padded H i (level H leaves i) ! ((k div 2 ^ i) XOR 1)"
  shows "verify_step H (int k) proof (level H leaves i ! (k div 2 ^ i)) i =
           level H leaves (Suc i) ! (k div 2 ^ Suc i)"
proof -
  define j where "j = k div 2 ^ i"
  define P where "P = padded H i (level H leaves i)"
  have j: "j < length (level H leaves i)"
    unfolding j_def using k by (rule index_in_level)
  have jP: "j < length P" using j by (simp add: P_def length_padded)
  have s: "j XOR 1 < length P" unfolding P_def using j by (rule sibling_in_padded)
  have v: "level H leaves i ! j = P ! j" using j by (simp add: P_def nth_padded)
  have up: "k div 2 ^ Suc i = j div 2"
    by (simp only: j_def power_Suc2 div_mult2_eq)
  have p': "proof ! i = P ! (j XOR 1)"
    using p by (simp only: j_def P_def)
  have lhs: "verify_step H (int k) proof (level H leaves i ! (k div 2 ^ i)) i =
               (if odd j then H (P ! (j XOR 1) @ P ! j) else H (P ! j @ P ! (j XOR 1)))"
    unfolding verify_step_def int_index_bit j_def [symmetric] p' v by (rule refl)
  have rhs: "level H leaves (Suc i) ! (k div 2 ^ Suc i) = hash_layer H P ! (j div 2)"
    unfolding up by (simp add: P_def)
  show ?thesis
  proof (cases "even j")
    case True
    then have x: "j XOR 1 = Suc j" and t: "2 * (j div 2) = j"
      by (simp_all add: xor_Suc_0_nat)
    from s x have "Suc (2 * (j div 2)) < length P" by (simp add: t)
    then have "hash_layer H P ! (j div 2) = H (P ! (2 * (j div 2)) @ P ! Suc (2 * (j div 2)))"
      by (rule nth_hash_layer)
    then have "hash_layer H P ! (j div 2) = H (P ! j @ P ! Suc j)"
      by (simp only: t)
    with True show ?thesis
      unfolding lhs rhs x by simp
  next
    case False
    then have x: "j XOR 1 = j - 1" and t: "Suc (2 * (j div 2)) = j"
      by (simp_all add: xor_Suc_0_nat)
    from t have t': "2 * (j div 2) = j - 1" and t'': "Suc (j - 1) = j" by simp_all
    from jP have "Suc (2 * (j div 2)) < length P" by (simp add: t)
    then have "hash_layer H P ! (j div 2) = H (P ! (2 * (j div 2)) @ P ! Suc (2 * (j div 2)))"
      by (rule nth_hash_layer)
    then have "hash_layer H P ! (j div 2) = H (P ! (j - 1) @ P ! j)"
      by (simp only: t' t'')
    with False show ?thesis
      unfolding lhs rhs x by simp
  qed
qed

lemma climb_level:
  assumes k: "k < length leaves"
    and p: "\<forall>i<d. proof ! i = padded H i (level H leaves i) ! ((k div 2 ^ i) XOR 1)"
  shows "foldl (verify_step H (int k) proof) (leaves ! k) [0..<d] =
           level H leaves d ! (k div 2 ^ d)"
  using p
proof (induction d)
  case 0
  show ?case by simp
next
  case (Suc d)
  then have "foldl (verify_step H (int k) proof) (leaves ! k) [0..<d] =
               level H leaves d ! (k div 2 ^ d)"
    by simp
  moreover from Suc.prems
  have "proof ! d = padded H d (level H leaves d) ! ((k div 2 ^ d) XOR 1)"
    by simp
  ultimately show ?case
    using verify_step_level [OF k, of "proof" d H] by simp
qed

subsection \<open>Shape of the built tree\<close>

lemma layers_nth_0_padded_leaves: "layers H leaves (Suc d) ! Suc d = padded H 0 leaves"
  using layers_nth_padded [of 0 "Suc d" H leaves] by simp

lemma last_layers: "last (layers H leaves (Suc d)) = padded H 0 leaves"
proof -
  have "last (layers H leaves (Suc d)) = layers H leaves (Suc d) ! Suc d"
    by (simp add: last_conv_nth layers_def)
  then show ?thesis by (simp only: layers_nth_0_padded_leaves)
qed

lemma layers_nth_stored:
  assumes "1 \<le> j" and "j \<le> d"
  shows "layers H leaves d ! j = padded H (d - j) (level H leaves (d - j))"
proof -
  from assms have "d - j < d" and "d - (d - j) = j" by simp_all
  with layers_nth_padded [of "d - j" d H leaves] show ?thesis by simp
qed

lemma even_length_layers:
  assumes "1 \<le> j" and "j \<le> d"
  shows "even (length (layers H leaves d ! j))"
  by (simp only: layers_nth_stored [OF assms] even_length_padded)

lemma take_padded: "take (length l) (padded H i l) = l"
  by (simp add: padded_def)

lemma hash_layer_layers_Suc:
  assumes "i < d"
  shows "hash_layer H (layers H leaves d ! Suc i) = level H leaves (d - i)"
proof -
  from assms have a: "1 \<le> Suc i" "Suc i \<le> d" and b: "Suc (d - Suc i) = d - i" by simp_all
  have "hash_layer H (layers H leaves d ! Suc i) = level H leaves (Suc (d - Suc i))"
    by (simp only: layers_nth_stored [OF a] level.simps)
  then show ?thesis by (simp only: b)
qed

lemma layers_parent_prefix:
  assumes "i < d"
  shows "take (length (layers H leaves d ! Suc i) div 2) (layers H leaves d ! i) =
           hash_layer H (layers H leaves d ! Suc i)"
proof -
  have h: "hash_layer H (layers H leaves d ! Suc i) = level H leaves (d - i)"
    using assms by (rule hash_layer_layers_Suc)
  have n: "length (layers H leaves d ! Suc i) div 2 = length (level H leaves (d - i))"
    using h length_hash_layer [of H "layers H leaves d ! Suc i"] by simp
  show ?thesis
  proof (cases i)
    case 0
    with h n show ?thesis by (simp add: layers_nth_0)
  next
    case (Suc m)
    with assms have "1 \<le> i" "i \<le> d" by simp_all
    then have "layers H leaves d ! i = padded H (d - i) (level H leaves (d - i))"
      by (rule layers_nth_stored)
    then show ?thesis by (simp only: h n take_padded)
  qed
qed

lemma length_root_layer:
  assumes "leaves \<noteq> []" and "length leaves \<le> 2 ^ 32"
  shows "length (level H leaves 32) = 1"
proof -
  from assms have "1 \<le> length leaves" by (cases leaves) simp_all
  with assms(2) have "(length leaves + 2 ^ 32 - 1) div 2 ^ 32 = 1"
    by simp
  then show ?thesis by (simp only: length_level)
qed

subsection \<open>Only the low 32 bits of the index are read\<close>

lemma same_parity_mod_2: "odd a = odd b \<Longrightarrow> a mod 2 = b mod (2::int)"
  by presburger

lemma low_bits_of_index:
  assumes "i < 32"
  shows "(index mod 2 ^ 32) div 2 ^ i mod 2 = index div 2 ^ i mod (2::int)"
proof -
  have "bit (take_bit 32 index) i = bit index i"
    using assms by (simp add: bit_take_bit_iff)
  then have "odd (take_bit 32 index div 2 ^ i) = odd (index div 2 ^ i)"
    by (simp only: bit_iff_odd)
  then have "odd ((index mod 2 ^ 32) div 2 ^ i) = odd (index div 2 ^ i)"
    by (simp only: take_bit_eq_mod)
  then show ?thesis
    by (rule same_parity_mod_2)
qed

lemma verify_step_low_bits:
  assumes "i < 32"
  shows "verify_step H (index mod 2 ^ 32) proof val i = verify_step H index proof val i"
  unfolding verify_step_def low_bits_of_index [OF assms] by (rule refl)

lemma climb_low_bits:
  "foldl (verify_step H (index mod 2 ^ 32) proof) leaf [0..<32] =
   foldl (verify_step H index proof) leaf [0..<32]"
proof (rule foldl_cong)
  fix a x
  assume "x \<in> set [0..<32]"
  then have "x < 32" by simp
  then show "verify_step H (index mod 2 ^ 32) proof a x = verify_step H index proof a x"
    by (rule verify_step_low_bits)
qed (rule refl)+

subsection \<open>The root of a built tree\<close>

lemma get_root_layers:
  assumes "length (level H leaves d) = 1"
  shows "get_root (layers H leaves d) = Inr (level H leaves d ! 0)"
proof -
  from assms obtain r where r: "level H leaves d = [r]"
    by (cases "level H leaves d") simp_all
  then show ?thesis by (simp add: get_root_def layers_def)
qed

lemma root_layer_single:
  assumes "length (level H leaves d) = 1"
  shows "layers H leaves d ! 0 = [level H leaves d ! 0]"
proof -
  from assms obtain r where r: "level H leaves d = [r]"
    by (cases "level H leaves d") simp_all
  then show ?thesis by (simp add: layers_nth_0)
qed

lemma length_level_single: "length (level H [L] i) = 1"
  by (simp add: length_level)

lemma single_leaf_sibling: "padded H i (level H [L] i) ! Suc 0 = EmptyNodeHashes H ! i"
proof -
  obtain v where "level H [L] i = [v]"
    using length_level_single [of H L i] by (cases "level H [L] i") simp_all
  then show ?thesis by (simp add: padded_def)
qed

subsection \<open>The verifier's loop against the spec's wording\<close>






subsection \<open>A concrete single-leaf tree\<close>







section \<open>The claims\<close>

text \<open>
  C3 (constant table): \<open>EmptyNodeHashes\<close> has exactly 32 entries, entry 0 is the raw
  value of 32 zero bytes, and every later entry \<open>i\<close> with \<open>1 \<le> i < 32\<close> is the hash of
  entry \<open>i - 1\<close> concatenated with itself.
\<close>

theorem EmptyNodeHashes_table:
  "length (EmptyNodeHashes H) = 32
   \<and> EmptyNodeHashes H ! 0 = replicate 32 0
   \<and> (\<forall>i. 1 \<le> i \<and> i < 32 \<longrightarrow>
         EmptyNodeHashes H ! i = H (EmptyNodeHashes H ! (i - 1) @ EmptyNodeHashes H ! (i - 1)))"
proof (intro conjI allI impI)
  show "length (EmptyNodeHashes H) = 32" by (rule length_EmptyNodeHashes)
  show "EmptyNodeHashes H ! 0 = replicate 32 0" by (rule EmptyNodeHashes_0)
next
  fix i :: nat
  assume "1 \<le> i \<and> i < 32"
  then obtain j where "i = Suc j" "Suc j < 32" by (cases i) auto
  then show "EmptyNodeHashes H ! i = H (EmptyNodeHashes H ! (i - 1) @ EmptyNodeHashes H ! (i - 1))"
    by (simp add: EmptyNodeHashes_Suc)
qed

theorem EmptyNodeHashes_table_witness:
  "(1::nat) \<le> 5 \<and> (5::nat) < 32
   \<and> EmptyNodeHashes (take 32) ! 5 =
       take 32 (EmptyNodeHashes (take 32) ! (5 - 1) @ EmptyNodeHashes (take 32) ! (5 - 1))"
proof -
  have h: "(1::nat) \<le> 5 \<and> (5::nat) < 32" by simp
  from EmptyNodeHashes_table [of "take 32"]
  have "\<forall>i. 1 \<le> i \<and> i < 32 \<longrightarrow>
          EmptyNodeHashes (take 32) ! i =
            take 32 (EmptyNodeHashes (take 32) ! (i - 1) @ EmptyNodeHashes (take 32) ! (i - 1))"
    by (elim conjE)
  then have "(1::nat) \<le> 5 \<and> (5::nat) < 32 \<longrightarrow>
          EmptyNodeHashes (take 32) ! 5 =
            take 32 (EmptyNodeHashes (take 32) ! (5 - 1) @ EmptyNodeHashes (take 32) ! (5 - 1))"
    by (rule spec)
  with h show ?thesis by blast
qed




text \<open>
  C8 (empty input): \<open>calc_merkle_tree_from_leaves\<close> fails exactly when there are no
  leaves and \<open>calc_merkle_tree\<close> exactly when there are no items, each time with the
  error raised for empty input and without a tree; every non-empty input yields a tree.
\<close>

theorem empty_input_rejected:
  "((\<exists>e. calc_merkle_tree_from_leaves H leaves = Inl e) \<longleftrightarrow> leaves = [])
   \<and> (leaves = [] \<longrightarrow> calc_merkle_tree_from_leaves H leaves = Inl ValueError)
   \<and> (leaves \<noteq> [] \<longrightarrow> (\<exists>tree. calc_merkle_tree_from_leaves H leaves = Inr tree))
   \<and> ((\<exists>e. calc_merkle_tree H items = Inl e) \<longleftrightarrow> items = [])
   \<and> (items = [] \<longrightarrow> calc_merkle_tree H items = Inl ValueError)
   \<and> (items \<noteq> [] \<longrightarrow> (\<exists>tree. calc_merkle_tree H items = Inr tree))"
proof -
  have l: "leaves = [] \<Longrightarrow> calc_merkle_tree_from_leaves H leaves = Inl ValueError"
    for leaves
    by (simp add: calc_merkle_tree_from_leaves_def)
  have r: "leaves \<noteq> [] \<Longrightarrow> \<exists>tree. calc_merkle_tree_from_leaves H leaves = Inr tree"
    for leaves
    by (simp add: calc_merkle_tree_from_leaves_layers)
  have li: "items = [] \<Longrightarrow> calc_merkle_tree H items = Inl ValueError"
    by (simp add: calc_merkle_tree_def l)
  have ri: "items \<noteq> [] \<Longrightarrow> \<exists>tree. calc_merkle_tree H items = Inr tree"
    unfolding calc_merkle_tree_def by (rule r) simp
  show ?thesis
    using l [of leaves] r [of leaves] li ri by (cases "leaves = []"; cases "items = []") auto
qed

theorem empty_input_rejected_witness:
  "calc_merkle_tree_from_leaves (take 32) [] = Inl ValueError
   \<and> calc_merkle_tree (take 32) [] = Inl ValueError
   \<and> (\<exists>tree. calc_merkle_tree_from_leaves (take 32) [[1]] = Inr tree)
   \<and> (\<exists>tree. calc_merkle_tree (take 32) [[1]] = Inr tree)"
proof -
  have a: "([] :: bytes list) = []" and b: "[[1]] \<noteq> ([] :: bytes list)" by simp_all
  from a empty_input_rejected [of "take 32" "[]" "[]"]
  have c: "calc_merkle_tree_from_leaves (take 32) [] = Inl ValueError
           \<and> calc_merkle_tree (take 32) [] = Inl ValueError"
    by blast
  from b empty_input_rejected [of "take 32" "[[1]]" "[[1]]"]
  have d: "(\<exists>tree. calc_merkle_tree_from_leaves (take 32) [[1]] = Inr tree)
           \<and> (\<exists>tree. calc_merkle_tree (take 32) [[1]] = Inr tree)"
    by blast
  from c d show ?thesis by blast
qed

text \<open>
  C5 (leaf-layer padding): for non-empty leaves the last layer of the built tree is the
  input itself when its length is even, and the input followed by one
  \<open>EmptyNodeHashes[0]\<close> digest when its length is odd.
\<close>

theorem leaf_layer_padding:
  assumes "leaves \<noteq> []"
  shows "\<exists>tree. calc_merkle_tree_from_leaves H leaves = Inr tree
           \<and> last tree = tree ! TreeDepth
           \<and> last tree = (if even (length leaves) then leaves
                           else leaves @ [EmptyNodeHashes H ! 0])"
proof -
  have c: "calc_merkle_tree_from_leaves H leaves = Inr (layers H leaves 32)"
    using assms by (rule calc_merkle_tree_from_leaves_layers)
  have s: "(32::nat) = Suc 31" by simp
  have l: "last (layers H leaves 32) = padded H 0 leaves"
    unfolding s by (rule last_layers)
  have n: "layers H leaves 32 ! TreeDepth = padded H 0 leaves"
    unfolding TreeDepth_def s by (rule layers_nth_0_padded_leaves)
  have p: "padded H 0 leaves =
             (if even (length leaves) then leaves else leaves @ [EmptyNodeHashes H ! 0])"
    by (simp add: padded_def even_iff_mod_2_eq_zero)
  from c l n p show ?thesis by simp
qed

theorem leaf_layer_padding_witness:
  "[[1], [2], [3]] \<noteq> ([] :: bytes list)
   \<and> (\<exists>tree. calc_merkle_tree_from_leaves (take 32) [[1], [2], [3]] = Inr tree
         \<and> last tree = [[1], [2], [3], EmptyNodeHashes (take 32) ! 0])"
proof -
  have h: "[[1], [2], [3]] \<noteq> ([] :: bytes list)" by simp
  from leaf_layer_padding [OF h, of "take 32"]
  have "\<exists>tree. calc_merkle_tree_from_leaves (take 32) [[1], [2], [3]] = Inr tree
          \<and> last tree = tree ! TreeDepth
          \<and> last tree = [[1], [2], [3], EmptyNodeHashes (take 32) ! 0]"
    by simp
  with h show ?thesis by blast
qed

text \<open>
  C10 (even layers): in the tree built from non-empty leaves every layer other than
  layer 0 has even length.
\<close>

theorem stored_layers_even:
  assumes "leaves \<noteq> []"
  shows "\<exists>tree. calc_merkle_tree_from_leaves H leaves = Inr tree
           \<and> (\<forall>j. 1 \<le> j \<and> j < length tree \<longrightarrow> even (length (tree ! j)))"
proof -
  have c: "calc_merkle_tree_from_leaves H leaves = Inr (layers H leaves 32)"
    using assms by (rule calc_merkle_tree_from_leaves_layers)
  have "even (length (layers H leaves 32 ! j))"
    if "1 \<le> j \<and> j < length (layers H leaves 32)" for j
  proof -
    from that have "1 \<le> j" and "j \<le> 32" by (simp_all add: length_layers)
    then show ?thesis by (rule even_length_layers)
  qed
  with c show ?thesis by blast
qed

theorem stored_layers_even_witness:
  "[[1], [2], [3]] \<noteq> ([] :: bytes list)
   \<and> (\<exists>tree. calc_merkle_tree_from_leaves (take 32) [[1], [2], [3]] = Inr tree
         \<and> (\<forall>j. 1 \<le> j \<and> j < length tree \<longrightarrow> even (length (tree ! j))))"
proof -
  have h: "[[1], [2], [3]] \<noteq> ([] :: bytes list)" by simp
  from stored_layers_even [OF h, of "take 32"] h show ?thesis by blast
qed

text \<open>
  C9 (three leaves): the tree built from \<open>[l0, l1, l2]\<close> has, at index 31 of its 33
  layers, exactly the two digests \<open>H(l0 || l1)\<close> and \<open>H(l2 || EmptyNodeHashes[0])\<close>,
  in that order.
\<close>

theorem three_leaves_level_one:
  "\<exists>tree. calc_merkle_tree_from_leaves H [l0, l1, l2] = Inr tree
     \<and> length tree = 33
     \<and> tree ! 31 = [H (l0 @ l1), H (l2 @ EmptyNodeHashes H ! 0)]"
proof -
  have c: "calc_merkle_tree_from_leaves H [l0, l1, l2] = Inr (layers H [l0, l1, l2] 32)"
    by (rule calc_merkle_tree_from_leaves_layers) simp
  have l1: "level H [l0, l1, l2] 1 = [H (l0 @ l1), H (l2 @ EmptyNodeHashes H ! 0)]"
    by (simp add: padded_def calc_parent_hash_def)
  have "layers H [l0, l1, l2] 32 ! 31 = padded H (32 - 31) (level H [l0, l1, l2] (32 - 31))"
    by (rule layers_nth_stored) simp_all
  then have "layers H [l0, l1, l2] 32 ! 31 = padded H 1 (level H [l0, l1, l2] 1)"
    by simp
  then have "layers H [l0, l1, l2] 32 ! 31 = [H (l0 @ l1), H (l2 @ EmptyNodeHashes H ! 0)]"
    by (simp only: l1) (simp add: padded_def)
  with c show ?thesis by (simp add: length_layers)
qed

text \<open>
  C4 (tree shape). As stated, for every non-empty leaf sequence, the claim fails: 32
  rounds of halving leave more than one digest in layer 0 once there are more than
  \<open>2^32\<close> leaves. With \<open>2^32 + 1\<close> leaves layer 0 has two digests.
\<close>

theorem tree_shape_counterexample:
  "map_sum id (map length \<circ> take 1)
     (calc_merkle_tree_from_leaves (take 32) (replicate (2 ^ 32 + 1) (replicate 32 0))) =
   Inr [2]"
proof -
  define leaves :: "Hash32 list" where "leaves = replicate (2 ^ 32 + 1) (replicate 32 0)"
  have n: "length leaves = 2 ^ 32 + 1" by (simp add: leaves_def)
  then have "leaves \<noteq> []" by auto
  then have c: "calc_merkle_tree_from_leaves (take 32) leaves = Inr (layers (take 32) leaves 32)"
    by (rule calc_merkle_tree_from_leaves_layers)
  have "length (level (take 32) leaves 32) = (2 ^ 32 + 1 + 2 ^ 32 - 1) div 2 ^ 32"
    by (simp only: length_level n)
  also have "\<dots> = (2::nat)" by simp
  finally have "map length (take 1 (layers (take 32) leaves 32)) = [2]"
    by (simp add: layers_def)
  with c show ?thesis by (simp add: leaves_def)
qed

text \<open>
  C4, amended: for every non-empty leaf sequence of at most \<open>2^32\<close> leaves the built
  tree has exactly \<open>TreeDepth + 1 = 33\<close> layers, layer 0 holds exactly one digest, the
  layers are ordered root first (the parents of each layer \<open>i + 1\<close> are the leading
  digests of layer \<open>i\<close>), and the last layer starts with the leaves.
\<close>

theorem tree_shape:
  assumes "leaves \<noteq> []" and "length leaves \<le> 2 ^ 32"
  shows "\<exists>tree. calc_merkle_tree_from_leaves H leaves = Inr tree
           \<and> length tree = TreeDepth + 1
           \<and> length tree = 33
           \<and> length (tree ! 0) = 1
           \<and> (\<forall>i<TreeDepth. take (length (tree ! Suc i) div 2) (tree ! i) =
                               hash_layer H (tree ! Suc i))
           \<and> take (length leaves) (last tree) = leaves"
proof -
  have c: "calc_merkle_tree_from_leaves H leaves = Inr (layers H leaves 32)"
    using assms(1) by (rule calc_merkle_tree_from_leaves_layers)
  have n: "length (layers H leaves 32) = 33"
    by (simp add: length_layers)
  have r: "length (layers H leaves 32 ! 0) = 1"
    unfolding layers_nth_0 using assms by (rule length_root_layer)
  have o: "\<forall>i<TreeDepth. take (length (layers H leaves 32 ! Suc i) div 2) (layers H leaves 32 ! i) =
             hash_layer H (layers H leaves 32 ! Suc i)"
    by (simp add: TreeDepth_def layers_parent_prefix)
  have s: "(32::nat) = Suc 31" by simp
  have "last (layers H leaves 32) = padded H 0 leaves"
    unfolding s by (rule last_layers)
  then have l: "take (length leaves) (last (layers H leaves 32)) = leaves"
    by (simp only: take_padded)
  from c n r o l show ?thesis by (simp add: TreeDepth_def)
qed

theorem tree_shape_witness:
  "[[1], [2], [3]] \<noteq> ([] :: bytes list)
   \<and> length [[1], [2], [3 :: byte]] \<le> 2 ^ 32
   \<and> (\<exists>tree. calc_merkle_tree_from_leaves (take 32) [[1], [2], [3]] = Inr tree
         \<and> length tree = 33
         \<and> length (tree ! 0) = 1)"
proof -
  have h: "[[1], [2], [3]] \<noteq> ([] :: bytes list)" by simp
  have b: "length [[1], [2], [3 :: byte]] \<le> 2 ^ 32" by simp
  from tree_shape [OF h b, of "take 32"] h b show ?thesis by blast
qed

text \<open>
  C6 (high bits of the index): with a proof of exactly 32 entries and a non-negative
  index, \<open>verify_merkle_proof\<close> answers for \<open>index\<close> what it answers for
  \<open>index mod 2^32\<close>, and it answers with a boolean, never an error.
\<close>

theorem index_high_bits_ignored:
  assumes "length proof = 32" and "0 \<le> index"
  shows "verify_merkle_proof H root leaf index proof =
           verify_merkle_proof H root leaf (index mod 2 ^ 32) proof
         \<and> (\<exists>b. verify_merkle_proof H root leaf index proof = Inr b)"
  using assms(1) by (simp only: verify_merkle_proof_def TreeDepth_def climb_low_bits) simp

theorem index_high_bits_ignored_witness:
  "length (replicate 32 ([5] :: bytes)) = 32 \<and> (0::int) \<le> 2 ^ 32 + 3
   \<and> verify_merkle_proof (take 32) [1] [2] (2 ^ 32 + 3) (replicate 32 [5]) =
       verify_merkle_proof (take 32) [1] [2] ((2 ^ 32 + 3) mod 2 ^ 32) (replicate 32 [5])
   \<and> (\<exists>b. verify_merkle_proof (take 32) [1] [2] (2 ^ 32 + 3) (replicate 32 [5]) = Inr b)"
proof -
  have a: "length (replicate 32 ([5] :: bytes)) = 32" by simp
  have b: "(0::int) \<le> 2 ^ 32 + 3" by simp
  from index_high_bits_ignored [OF a b, of "take 32" "[1]" "[2]"] a b
  show ?thesis by blast
qed

text \<open>
  C2 (single leaf): for every digest \<open>L\<close> the root of the tree built from \<open>[L]\<close>
  verifies against \<open>L\<close> at index 0 with the table \<open>EmptyNodeHashes\<close> as the proof.
\<close>

theorem single_leaf_verifies:
  "\<exists>root. get_merkle_root H [L] = Inr root
     \<and> verify_merkle_proof H root L 0 (EmptyNodeHashes H) = Inr True"
proof -
  have c: "calc_merkle_tree_from_leaves H [L] = Inr (layers H [L] 32)"
    by (rule calc_merkle_tree_from_leaves_layers) simp
  have g: "get_merkle_root H [L] = Inr (level H [L] 32 ! 0)"
    by (simp add: get_merkle_root_def c get_root_layers length_level_single)
  have k: "(0::nat) < length [L]" by simp
  have p: "\<forall>i<32. EmptyNodeHashes H ! i = padded H i (level H [L] i) ! ((0 div 2 ^ i) XOR 1)"
    by (simp add: single_leaf_sibling)
  from climb_level [OF k p]
  have "foldl (verify_step H 0 (EmptyNodeHashes H)) L [0..<32] = level H [L] 32 ! 0"
    by simp
  then have "verify_merkle_proof H (level H [L] 32 ! 0) L 0 (EmptyNodeHashes H) = Inr True"
    by (simp add: verify_merkle_proof_def TreeDepth_def length_EmptyNodeHashes)
  with g show ?thesis by blast
qed

text \<open>
  C1 (proof round trip): for non-empty leaves, at most \<open>2^32\<close> of them, and every index
  \<open>k\<close> below their count, the proof read from the built tree, whose entry \<open>i\<close> is
  \<open>tree[32 - i][(k >> i) XOR 1]\<close>, verifies leaf \<open>k\<close> at index \<open>k\<close> against the single
  digest of layer 0. Every read is inside its layer.
\<close>

theorem proof_round_trip:
  assumes "leaves \<noteq> []" and "length leaves \<le> 2 ^ 32" and "k < length leaves"
  shows "\<exists>tree root.
           calc_merkle_tree_from_leaves H leaves = Inr tree
           \<and> tree ! 0 = [root]
           \<and> (\<forall>i<32. 32 - i < length tree \<and> (drop_bit i k XOR 1) < length (tree ! (32 - i)))
           \<and> verify_merkle_proof H root (leaves ! k) (int k)
                (map (\<lambda>i. tree ! (32 - i) ! (drop_bit i k XOR 1)) [0..<32]) = Inr True"
proof -
  define tree where "tree = layers H leaves 32"
  define root where "root = level H leaves 32 ! 0"
  define branch where "branch = map (\<lambda>i. tree ! (32 - i) ! (drop_bit i k XOR 1)) [0..<32]"
  have c: "calc_merkle_tree_from_leaves H leaves = Inr tree"
    unfolding tree_def using assms(1) by (rule calc_merkle_tree_from_leaves_layers)
  have one: "length (level H leaves 32) = 1"
    using assms(1,2) by (rule length_root_layer)
  have r: "tree ! 0 = [root]"
    unfolding tree_def root_def using one by (rule root_layer_single)
  have st: "tree ! (32 - i) = padded H i (level H leaves i)" if "i < 32" for i
    unfolding tree_def using that by (rule layers_nth_padded)
  have inside: "32 - i < length tree \<and> (drop_bit i k XOR 1) < length (tree ! (32 - i))"
    if "i < 32" for i
  proof -
    have "k div 2 ^ i < length (level H leaves i)"
      using assms(3) by (rule index_in_level)
    then have "(k div 2 ^ i) XOR 1 < length (padded H i (level H leaves i))"
      by (rule sibling_in_padded)
    then show ?thesis
      by (simp add: st [OF that] drop_bit_eq_div) (simp add: tree_def length_layers)
  qed
  have p: "\<forall>i<32. branch ! i = padded H i (level H leaves i) ! ((k div 2 ^ i) XOR 1)"
    by (simp add: branch_def st drop_bit_eq_div)
  have "k < 2 ^ 32" using assms(2,3) by simp
  then have z: "k div 2 ^ 32 = 0" by simp
  from climb_level [OF assms(3) p]
  have "foldl (verify_step H (int k) branch) (leaves ! k) [0..<32] = root"
    by (simp only: z root_def)
  moreover have "length branch = 32" by (simp add: branch_def)
  ultimately have "verify_merkle_proof H root (leaves ! k) (int k) branch = Inr True"
    by (simp add: verify_merkle_proof_def TreeDepth_def)
  with c r inside show ?thesis
    unfolding branch_def by blast
qed

theorem proof_round_trip_witness:
  "[[1], [2], [3]] \<noteq> ([] :: bytes list)
   \<and> length [[1], [2], [3 :: byte]] \<le> 2 ^ 32
   \<and> 2 < length [[1], [2], [3 :: byte]]
   \<and> (\<exists>tree root.
         calc_merkle_tree_from_leaves (take 32) [[1], [2], [3]] = Inr tree
         \<and> tree ! 0 = [root]
         \<and> verify_merkle_proof (take 32) root [3] 2
              (map (\<lambda>i. tree ! (32 - i) ! (drop_bit i 2 XOR 1)) [0..<32]) = Inr True)"
proof -
  have a: "[[1], [2], [3]] \<noteq> ([] :: bytes list)" by simp
  have b: "length [[1], [2], [3 :: byte]] \<le> 2 ^ 32" by simp
  have c: "2 < length [[1], [2], [3 :: byte]]" by simp
  have d: "[[1], [2], [3 :: byte]] ! 2 = [3]" by simp
  from proof_round_trip [OF a b c, of "take 32"]
  have "\<exists>tree root.
         calc_merkle_tree_from_leaves (take 32) [[1], [2], [3]] = Inr tree
         \<and> tree ! 0 = [root]
         \<and> verify_merkle_proof (take 32) root [3] 2
              (map (\<lambda>i. tree ! (32 - i) ! (drop_bit i 2 XOR 1)) [0..<32]) = Inr True"
    unfolding d by simp blast
  with a b c show ?thesis by blast
qed

end
